theory Spec2Isabelle
  imports Complex_Main
begin

section \<open>Python string operations used by agents/deals.py\<close>

text \<open>
  Python text is modelled as \<^typ>\<open>string\<close>: a list of characters with code points
  below 256. The operations below are the four \<open>str\<close> methods and the one regular
  expression that \<open>agents/deals.py\<close> applies: \<open>in\<close>, \<open>split\<close>, \<open>replace\<close>,
  \<open>strip\<close> and \<open>re.sub('<[^<]+?>', '', _)\<close>.
\<close>

datatype py_error =
  KeyError | IndexError | AttributeError | ValueError | RequestException | ParserRejectedMarkup

definition newline :: char where
  "newline = CHR 0x0A"

text \<open>\<open>s.startswith(p)\<close>: the text \<open>s\<close> begins with \<open>p\<close>.\<close>

fun startswith :: "string \<Rightarrow> string \<Rightarrow> bool" where
  "startswith s [] = True"
| "startswith [] (p # ps) = False"
| "startswith (c # cs) (p # ps) = (c = p \<and> startswith cs ps)"


text \<open>\<open>sub in s\<close>: the substring test, scanning the start positions left to right.\<close>

fun contains :: "string \<Rightarrow> string \<Rightarrow> bool" where
  "contains [] sub = (sub = [])"
| "contains (c # cs) sub = (startswith (c # cs) sub \<or> contains cs sub)"

text \<open>
  The pieces of \<open>s.split(sep)\<close> for a separator that is not empty: the scan goes left
  to right, \<open>cur\<close> is the piece read so far, and a match of \<open>sep\<close> closes the piece and
  is skipped whole, so matches never overlap. Every match is a split point: Python's
  \<open>split\<close> without \<open>maxsplit\<close> does not stop after the first one.
\<close>

function split_pieces :: "string \<Rightarrow> string \<Rightarrow> string \<Rightarrow> string list" where
  "split_pieces sep cur [] = [cur]"
| "split_pieces sep cur (c # cs) =
     (if sep \<noteq> [] \<and> startswith (c # cs) sep
      then cur # split_pieces sep [] (drop (length sep) (c # cs))
      else split_pieces sep (cur @ [c]) cs)"
  by pat_completeness auto
termination
  by (relation "measure (\<lambda>(sep, cur, s). length s)") (auto simp: neq_Nil_conv)

text \<open>\<open>s.split(sep)\<close>; an empty separator raises \<open>ValueError\<close>.\<close>

definition py_split :: "string \<Rightarrow> string \<Rightarrow> py_error + string list" where
  "py_split s sep = (if sep = [] then Inl ValueError else Inr (split_pieces sep [] s))"

text \<open>
  \<open>s.replace(old, new)\<close>: every match of \<open>old\<close>, left to right and without overlap,
  becomes \<open>new\<close>; an empty \<open>old\<close> matches before every character and at the end.
\<close>

function py_replace :: "string \<Rightarrow> string \<Rightarrow> string \<Rightarrow> string" where
  "py_replace old new [] = (if old = [] then new else [])"
| "py_replace old new (c # cs) =
     (if old = [] then new @ c # py_replace old new cs
      else if startswith (c # cs) old
      then new @ py_replace old new (drop (length old) (c # cs))
      else c # py_replace old new cs)"
  by pat_completeness auto
termination
  by (relation "measure (\<lambda>(old, new, s). length s)") (auto simp: neq_Nil_conv)

text \<open>
  \<open>c.isspace()\<close> on the code points below 256: tab to carriage return, the four
  separators 28 to 31, the space, NEL (133) and the no-break space (160).
\<close>

definition isspace :: "char \<Rightarrow> bool" where
  "isspace c =
     (let n = (of_char c :: nat)
      in (9 \<le> n \<and> n \<le> 13) \<or> (28 \<le> n \<and> n \<le> 32) \<or> n = 133 \<or> n = 160)"

text \<open>\<open>s.strip()\<close>: the whitespace at both ends is removed.\<close>

definition py_strip :: "string \<Rightarrow> string" where
  "py_strip s = rev (dropWhile isspace (rev (dropWhile isspace s)))"

text \<open>
  The regular expression \<open><[^<]+?>\<close>. After the opening \<open><\<close> and one character that
  is not \<open><\<close>, the lazy repetition stops at the first \<open>>\<close> and fails at a \<open><\<close> or at
  the end of the text: \<open>tag_end\<close> is that scan and gives the text after the match.
\<close>

fun tag_end :: "string \<Rightarrow> string option" where
  "tag_end [] = None"
| "tag_end (c # cs) =
     (if c = CHR ''>'' then Some cs else if c = CHR ''<'' then None else tag_end cs)"

fun match_tag :: "string \<Rightarrow> string option" where
  "match_tag (c # d # cs) = (if c = CHR ''<'' \<and> d \<noteq> CHR ''<'' then tag_end cs else None)"
| "match_tag s = None"

lemma tag_end_shorter: "tag_end cs = Some r \<Longrightarrow> length r < length cs"
  by (induction cs) (auto split: if_splits)

lemma match_tag_shorter: "match_tag s = Some r \<Longrightarrow> length r < length s"
  by (cases s rule: match_tag.cases) (auto split: if_splits dest: tag_end_shorter)

text \<open>\<open>re.sub('<[^<]+?>', '', s)\<close>: every match, left to right, is deleted.\<close>

function re_sub_tags :: "string \<Rightarrow> string" where
  "re_sub_tags [] = []"
| "re_sub_tags (c # cs) =
     (case match_tag (c # cs) of
        Some rest \<Rightarrow> re_sub_tags rest
      | None \<Rightarrow> c # re_sub_tags cs)"
  by pat_completeness auto
termination
  by (relation "measure length") (auto dest: match_tag_shorter)

section \<open>The libraries the module calls\<close>

text \<open>
  Beautiful Soup, requests and feedparser are not part of the repository: what they
  return is a parameter of the model, a record of functions named after the calls the
  module makes. \<open>'el\<close> is the type of the elements that \<open>find\<close> returns.
  \<^item> \<open>soup_find w markup name cls\<close> is
    \<open>BeautifulSoup(markup, 'html.parser').find(name, class_=cls)\<close>: the exception
    that the constructor raises for markup the parser rejects
    (\<open>ParserRejectedMarkup\<close>, for \<open><![<\<close> among others), or the element found,
    \<open>None\<close> when no element matches;
  \<^item> \<open>el_text w el\<close> is \<open>el.get_text()\<close> and \<open>el_text_strip w el\<close> is
    \<open>el.get_text(strip=True)\<close>;
  \<^item> \<open>soup_text w markup\<close> is \<open>BeautifulSoup(markup, 'html.parser').get_text()\<close>, or
    the exception that the constructor raises;
  \<^item> \<open>requests_get w url\<close> is \<open>requests.get(url).content\<close>, or the exception that
    the request raises;
  \<^item> \<open>feedparser_parse w url\<close> is \<open>feedparser.parse(url)\<close>. feedparser reports a
    feed that it cannot retrieve or parse in the result, with the flag \<open>bozo\<close> set, and
    such a result has whatever entries could be read, none when nothing was retrieved.
\<close>

record link =
  href :: "string option"

text \<open>
  A feed entry is a dictionary: a key that is absent is \<open>None\<close> here, and reading it
  raises \<open>KeyError\<close> in the module.
\<close>

record entry =
  entry_title :: "string option"
  entry_summary :: "string option"
  entry_links :: "link list option"

record parsed_feed =
  entries :: "entry list"
  bozo :: bool

record 'el world =
  soup_find :: "string \<Rightarrow> string \<Rightarrow> string \<Rightarrow> py_error + 'el option"
  el_text :: "'el \<Rightarrow> string"
  el_text_strip :: "'el \<Rightarrow> string"
  soup_text :: "string \<Rightarrow> py_error + string"
  requests_get :: "string \<Rightarrow> py_error + string"
  feedparser_parse :: "string \<Rightarrow> parsed_feed"

section \<open>agents/deals.py\<close>

definition feeds :: "string list" where
  "feeds =
     [''https://www.dealnews.com/c142/Electronics/?rss=1'',
      ''https://www.dealnews.com/c39/Computers/?rss=1'',
      ''https://www.dealnews.com/c238/Automotive/?rss=1'',
      ''https://www.dealnews.com/f1912/Smart-Home/?rss=1'',
      ''https://www.dealnews.com/c196/Home-Garden/?rss=1'']"

text \<open>
  \<open>extract(html_snippet)\<close>, named \<open>extract_text\<close> here because \<open>List.extract\<close> exists.
  A Beautiful Soup element is true in a condition, so \<open>if snippet_div\<close> tests that
  \<open>find\<close> returned one. The function catches nothing: an exception of either
  parse leaves it.
\<close>

definition extract_text :: "'el world \<Rightarrow> string \<Rightarrow> py_error + string" where
  "extract_text w html_snippet =
     (case soup_find w html_snippet ''div'' ''snippet summary'' of
        Inl err \<Rightarrow> Inl err
      | Inr (Some snippet_div) \<Rightarrow>
          (let description = el_text_strip w snippet_div
           in case soup_text w description of
                Inl err \<Rightarrow> Inl err
              | Inr description \<Rightarrow>
                  (let description = re_sub_tags description;
                       result = py_strip description
                   in Inr (py_replace [newline] '' '' result)))
      | Inr None \<Rightarrow>
          (let result = html_snippet
           in Inr (py_replace [newline] '' '' result)))"

subsection \<open>The models \<open>Deal\<close> and \<open>Opportunity\<close>\<close>

text \<open>
  The module declares \<open>Deal\<close> and \<open>Opportunity\<close> after \<open>ScrapedDeal\<close>; they stand
  first here because \<open>Deal\<close> and \<open>ScrapedDeal\<close> both have a field \<open>url\<close>, and the
  later record is the one the plain name refers to. The classes are pydantic models:
  the module gives them fields and nothing else. \<open>DealSelection\<close>, a list of \<open>Deal\<close>
  in one field, is used by no function of the module and is left out. A Python
  \<open>float\<close> is modelled as a real number, so the arithmetic below is exact.
\<close>

record Deal =
  product_description :: string
  price :: real
  url :: string

record Opportunity =
  deal :: Deal
  estimate :: real
  discount :: real

text \<open>
  Modelled from the spec: the valuation collaborator that builds an \<open>Opportunity\<close>
  from a \<open>Deal\<close> and its estimate is not among the source files. The spec gives
  \<open>discount\<close> as the externally computed value \<open>estimate - deal.price\<close>.
\<close>

definition make_opportunity :: "Deal \<Rightarrow> real \<Rightarrow> Opportunity" where
  "make_opportunity d est = \<lparr>deal = d, estimate = est, discount = est - price d\<rparr>"

definition sample_deal :: Deal where
  "sample_deal = \<lparr>product_description = ''x'', price = 50, url = ''http://x''\<rparr>"

subsection \<open>The class \<open>ScrapedDeal\<close>\<close>

text \<open>
  The annotation \<open>category: str\<close> declares no attribute and
  no method assigns one, so the record has the five attributes that \<open>__init__\<close> sets.
\<close>

record scraped_deal =
  title :: string
  summary :: string
  url :: string
  details :: string
  features :: string

text \<open>
  Lines 51 to 55 of \<open>__init__\<close>: the page behind \<open>url\<close> is fetched and parsed, the text
  of its \<open>content-section\<close> element is read (\<open>find\<close> returning \<open>None\<close> makes
  \<open>.get_text()\<close> raise \<open>AttributeError\<close>), and the text is cleaned. An exception of
  the request or of the parse leaves \<open>__init__\<close>.
\<close>

definition cleaned_content :: "'el world \<Rightarrow> string \<Rightarrow> py_error + string" where
  "cleaned_content w u =
     (case requests_get w u of
        Inl err \<Rightarrow> Inl err
      | Inr stuff \<Rightarrow>
          (case soup_find w stuff ''div'' ''content-section'' of
             Inl err \<Rightarrow> Inl err
           | Inr None \<Rightarrow> Inl AttributeError
           | Inr (Some section) \<Rightarrow>
               Inr (py_replace [newline] '' ''
                      (py_replace (newline # ''more'') [] (el_text w section)))))"

text \<open>
  Lines 56 to 60 of \<open>__init__\<close>: the split of the cleaned content. The assignment
  \<open>self.details, self.features = content.split("Features")\<close> unpacks into two names,
  and raises \<open>ValueError\<close> when the list has any other length.
\<close>

definition split_content :: "string \<Rightarrow> py_error + string \<times> string" where
  "split_content content =
     (if contains content ''Features''
      then (case py_split content ''Features'' of
              Inl err \<Rightarrow> Inl err
            | Inr [d, f] \<Rightarrow> Inr (d, f)
            | Inr _ \<Rightarrow> Inl ValueError)
      else Inr (content, []))"

text \<open>\<open>ScrapedDeal.__init__(self, entry)\<close>, statement by statement.\<close>

definition ScrapedDeal_init :: "'el world \<Rightarrow> entry \<Rightarrow> py_error + scraped_deal" where
  "ScrapedDeal_init w e =
     (case entry_title e of
        None \<Rightarrow> Inl KeyError
      | Some t \<Rightarrow>
     (case entry_summary e of
        None \<Rightarrow> Inl KeyError
      | Some raw \<Rightarrow>
     (case extract_text w raw of
        Inl err \<Rightarrow> Inl err
      | Inr s \<Rightarrow>
     (case entry_links e of
        None \<Rightarrow> Inl KeyError
      | Some [] \<Rightarrow> Inl IndexError
      | Some (l # _) \<Rightarrow>
     (case href l of
        None \<Rightarrow> Inl KeyError
      | Some u \<Rightarrow>
     (case cleaned_content w u of
        Inl err \<Rightarrow> Inl err
      | Inr content \<Rightarrow>
     (case split_content content of
        Inl err \<Rightarrow> Inl err
      | Inr (d, f) \<Rightarrow>
          Inr \<lparr>title = t, summary = s, url = u, details = d, features = f\<rparr>)))))))"

text \<open>\<open>__repr__\<close> and \<open>describe\<close>.\<close>

definition ScrapedDeal_repr :: "scraped_deal \<Rightarrow> string" where
  "ScrapedDeal_repr d = ''<'' @ title d @ ''>''"

definition describe :: "scraped_deal \<Rightarrow> string" where
  "describe d =
     ''Title: '' @ title d @ [newline] @
     ''Details: '' @ py_strip (details d) @ [newline] @
     ''Features: '' @ py_strip (features d) @ [newline] @
     ''URL: '' @ url d"

text \<open>
  \<open>ScrapedDeal.fetch\<close>. What the loops do besides building the list is counted in
  \<open>effects\<close>: the updates of the progress bar that \<open>tqdm\<close> draws, one for each item it
  hands to the loop, and the calls of \<open>time.sleep(0.5)\<close>. An exception leaves the
  loops at once; the model returns it in place of the list.
\<close>

record effects =
  bar_updates :: nat
  pauses :: nat

datatype 'a iterable = Plain "'a list" | Tqdm "'a list"

fun items :: "'a iterable \<Rightarrow> 'a list" where
  "items (Plain xs) = xs"
| "items (Tqdm xs) = xs"

fun draws_bar :: "'a iterable \<Rightarrow> bool" where
  "draws_bar (Plain xs) = False"
| "draws_bar (Tqdm xs) = True"

fun entries_loop ::
  "'el world \<Rightarrow> entry list \<Rightarrow> effects \<Rightarrow> scraped_deal list
    \<Rightarrow> effects \<times> (py_error + scraped_deal list)" where
  "entries_loop w [] fx deals = (fx, Inr deals)"
| "entries_loop w (e # es) fx deals =
     (case ScrapedDeal_init w e of
        Inl err \<Rightarrow> (fx, Inl err)
      | Inr d \<Rightarrow> entries_loop w es (fx\<lparr>pauses := pauses fx + 1\<rparr>) (deals @ [d]))"

fun feeds_loop ::
  "'el world \<Rightarrow> bool \<Rightarrow> string list \<Rightarrow> effects \<Rightarrow> scraped_deal list
    \<Rightarrow> effects \<times> (py_error + scraped_deal list)" where
  "feeds_loop w bar [] fx deals = (fx, Inr deals)"
| "feeds_loop w bar (feed_url # rest) fx deals =
     (let fx1 = (if bar then fx\<lparr>bar_updates := bar_updates fx + 1\<rparr> else fx);
          feed = feedparser_parse w feed_url
      in case entries_loop w (take 10 (entries feed)) fx1 deals of
           (fx2, Inl err) \<Rightarrow> (fx2, Inl err)
         | (fx2, Inr deals') \<Rightarrow> feeds_loop w bar rest fx2 deals')"

text \<open>
  \<open>fetch_from\<close> is \<open>fetch\<close> with the module's global \<open>feeds\<close> as an argument.
\<close>

definition fetch_from ::
  "'el world \<Rightarrow> string list \<Rightarrow> bool \<Rightarrow> effects \<times> (py_error + scraped_deal list)" where
  "fetch_from w fs show_progress =
     (let feed_iter = (if show_progress then Tqdm fs else Plain fs)
      in feeds_loop w (draws_bar feed_iter) (items feed_iter)
           \<lparr>bar_updates = 0, pauses = 0\<rparr> [])"

definition fetch :: "'el world \<Rightarrow> bool \<Rightarrow> effects \<times> (py_error + scraped_deal list)" where
  "fetch w show_progress = fetch_from w feeds show_progress"

text \<open>
  The records of one feed: those of its first ten entries for which \<open>__init__\<close>
  returns, in the order of the feed.
\<close>

definition built :: "'el world \<Rightarrow> string \<Rightarrow> scraped_deal list" where
  "built w feed_url =
     concat (map (\<lambda>e. case ScrapedDeal_init w e of Inr d \<Rightarrow> [d] | Inl err \<Rightarrow> [])
       (take 10 (entries (feedparser_parse w feed_url))))"

section \<open>Sample inputs\<close>

text \<open>
  The worlds on which the theorems below are evaluated. In \<open>sample_world pages fds\<close>
  the page behind a URL of \<open>pages\<close> is one \<open>content-section\<close> element around the
  given plain text, a request for any other URL fails, the parser accepts every text,
  no text has a \<open>snippet summary\<close> element, and the feeds are those of \<open>fds\<close>; any other feed
  cannot be retrieved, which feedparser reports with \<open>bozo\<close> set and no entries. An
  element is represented by its text.
\<close>

definition page_markup :: "string \<Rightarrow> string" where
  \<open>page_markup body = ''<div class="content-section">'' @ body @ ''</div>''\<close>

definition sample_world :: "(string \<times> string) list \<Rightarrow> (string \<times> parsed_feed) list \<Rightarrow> string world" where
  "sample_world pages fds =
     \<lparr>soup_find = (\<lambda>markup name cls.
        if name = ''div'' \<and> cls = ''content-section''
        then Inr (map_of (map (\<lambda>(u, body). (page_markup body, body)) pages) markup)
        else Inr None),
      el_text = (\<lambda>el. el),
      el_text_strip = py_strip,
      soup_text = (\<lambda>markup. Inr markup),
      requests_get = (\<lambda>u. case map_of pages u of
                            None \<Rightarrow> Inl RequestException
                          | Some body \<Rightarrow> Inr (page_markup body)),
      feedparser_parse = (\<lambda>u. case map_of fds u of
                                None \<Rightarrow> \<lparr>entries = [], bozo = True\<rparr>
                              | Some f \<Rightarrow> f)\<rparr>"

definition sample_entry :: "string \<Rightarrow> string \<Rightarrow> entry" where
  "sample_entry t u =
     \<lparr>entry_title = Some t, entry_summary = Some ''A deal'',
      entry_links = Some [\<lparr>href = Some u\<rparr>]\<rparr>"

definition sample_pages :: "(string \<times> string) list" where
  "sample_pages =
     [(''http://d/1'', ''A fast laptop''),
      (''http://d/2'', ''A smart TVFeatures 4K panel''),
      (''http://d/3'', ''SpeakersFeatures bassFeatures treble'')]"

definition sample_feeds :: "(string \<times> parsed_feed) list" where
  "sample_feeds =
     [(''feed/good'',
        \<lparr>entries = [sample_entry ''Laptop'' ''http://d/1'', sample_entry ''TV'' ''http://d/2''],
         bozo = False\<rparr>),
      (''feed/long'', \<lparr>entries = replicate 11 (sample_entry ''Laptop'' ''http://d/1''), bozo = False\<rparr>),
      (''feed/bad'',
        \<lparr>entries = [sample_entry ''Speakers'' ''http://d/3'', sample_entry ''TV'' ''http://d/2''],
         bozo = False\<rparr>)]"

definition laptop :: scraped_deal where
  "laptop = \<lparr>title = ''Laptop'', summary = ''A deal'', url = ''http://d/1'',
             details = ''A fast laptop'', features = ''''\<rparr>"

definition tv :: scraped_deal where
  "tv = \<lparr>title = ''TV'', summary = ''A deal'', url = ''http://d/2'',
         details = ''A smart TV'', features = '' 4K panel''\<rparr>"

text \<open>
  \<open>entity_world\<close> tabulates what Beautiful Soup returns on the texts of one example.
  In \<open>entity_markup\<close> the \<open>snippet summary\<close> element holds entities that are encoded
  twice. Its text is \<open>entity_text\<close>: the parser decodes \<open>&amp;\<close> once. Parsing
  \<open>entity_text\<close> again decodes \<open>&lt;\<close> and \<open>&gt;\<close> into one text node,
  \<open>entity_decoded\<close>. In \<open>open_div\<close> the parser finds a \<open>snippet summary\<close> element
  whose text is \<open>x\<close>. Any other text has no such element and is its own text.
  In \<open>rejecting_world\<close> the parser rejects the text \<open><![<\<close>, as \<open>html.parser\<close>
  does, and finds no element in any other text.
\<close>

definition entity_markup :: string where
  \<open>entity_markup =
     ''<div class="snippet summary">&amp;lt;&amp;lt;b&amp;gt;div class="snippet summary"&amp;gt;x</div>''\<close>

definition entity_text :: string where
  \<open>entity_text = ''&lt;&lt;b&gt;div class="snippet summary"&gt;x''\<close>

definition entity_decoded :: string where
  \<open>entity_decoded = ''<<b>div class="snippet summary">x''\<close>

definition open_div :: string where
  \<open>open_div = ''<div class="snippet summary">x''\<close>

definition entity_world :: "string world" where
  "entity_world =
     \<lparr>soup_find = (\<lambda>markup name cls.
        if name = ''div'' \<and> cls = ''snippet summary''
        then (if markup = entity_markup then Inr (Some entity_text)
              else if markup = open_div then Inr (Some ''x'') else Inr None)
        else Inr None),
      el_text = (\<lambda>el. el),
      el_text_strip = (\<lambda>el. el),
      soup_text = (\<lambda>markup. if markup = entity_text then Inr entity_decoded else Inr markup),
      requests_get = (\<lambda>u. Inl RequestException),
      feedparser_parse = (\<lambda>u. \<lparr>entries = [], bozo = True\<rparr>)\<rparr>"

definition rejecting_world :: "string world" where
  "rejecting_world =
     \<lparr>soup_find = (\<lambda>markup name cls.
        if markup = ''<![<'' then Inl ParserRejectedMarkup else Inr None),
      el_text = (\<lambda>el. el),
      el_text_strip = (\<lambda>el. el),
      soup_text = (\<lambda>markup.
        if markup = ''<![<'' then Inl ParserRejectedMarkup else Inr markup),
      requests_get = (\<lambda>u. Inl RequestException),
      feedparser_parse = (\<lambda>u. \<lparr>entries = [], bozo = True\<rparr>)\<rparr>"

section \<open>Facts about the string operations\<close>

lemma startswith_iff: "startswith s p \<longleftrightarrow> (\<exists>r. s = p @ r)"
  by (induction s p rule: startswith.induct) auto

lemma startswith_append: "startswith (p @ r) p"
  by (simp add: startswith_iff)

lemma startswith_drop: "startswith s p \<Longrightarrow> s = p @ drop (length p) s"
  by (auto simp: startswith_iff)

lemma contains_iff: "contains s sub \<longleftrightarrow> (\<exists>a b. s = a @ sub @ b)"
proof (induction s)
  case Nil
  then show ?case by auto
next
  case (Cons c cs)
  show ?case
  proof
    assume "contains (c # cs) sub"
    then consider "startswith (c # cs) sub" | "contains cs sub" by auto
    then show "\<exists>a b. c # cs = a @ sub @ b"
    proof cases
      case 1
      then obtain r where "c # cs = sub @ r" by (auto simp: startswith_iff)
      then have "c # cs = [] @ sub @ r" by simp
      then show ?thesis by blast
    next
      case 2
      then obtain a b where "cs = a @ sub @ b" using Cons.IH by blast
      then have "c # cs = (c # a) @ sub @ b" by simp
      then show ?thesis by blast
    qed
  next
    assume "\<exists>a b. c # cs = a @ sub @ b"
    then obtain a b where ab: "c # cs = a @ sub @ b" by blast
    show "contains (c # cs) sub"
    proof (cases a)
      case Nil
      then have "startswith (c # cs) sub" using ab by (simp add: startswith_iff)
      then show ?thesis by simp
    next
      case (Cons x a')
      then have "cs = a' @ sub @ b" using ab by simp
      then have "contains cs sub" using Cons.IH by blast
      then show ?thesis by simp
    qed
  qed
qed

lemma split_pieces_no_match:
  "\<not> contains s sep \<Longrightarrow> split_pieces sep cur s = [cur @ s]"
  by (induction s arbitrary: cur) auto

lemma split_pieces_not_Nil: "split_pieces sep cur s \<noteq> []"
  by (induction sep cur s rule: split_pieces.induct) auto

lemma split_pieces_first:
  "sep \<noteq> [] \<Longrightarrow> contains s sep \<Longrightarrow>
   \<exists>d rest. s = d @ sep @ rest
     \<and> split_pieces sep cur s = (cur @ d) # split_pieces sep [] rest
     \<and> (\<forall>d' r'. s = d' @ sep @ r' \<longrightarrow> length d \<le> length d')"
proof (induction s arbitrary: cur)
  case Nil
  then show ?case by simp
next
  case (Cons c cs)
  show ?case
  proof (cases "startswith (c # cs) sep")
    case True
    then have "c # cs = [] @ sep @ drop (length sep) (c # cs)"
      using startswith_drop by fastforce
    moreover have "split_pieces sep cur (c # cs)
        = (cur @ []) # split_pieces sep [] (drop (length sep) (c # cs))"
      using True Cons.prems(1) by simp
    ultimately show ?thesis by (metis list.size(3) le0)
  next
    case False
    then have "contains cs sep" using Cons.prems(2) by simp
    from Cons.IH[OF Cons.prems(1) this, of "cur @ [c]"]
    obtain d rest where d: "cs = d @ sep @ rest"
      "split_pieces sep (cur @ [c]) cs = ((cur @ [c]) @ d) # split_pieces sep [] rest"
      "\<forall>d' r'. cs = d' @ sep @ r' \<longrightarrow> length d \<le> length d'"
      by blast
    have 1: "c # cs = (c # d) @ sep @ rest" using d(1) by simp
    have 2: "split_pieces sep cur (c # cs) = (cur @ (c # d)) # split_pieces sep [] rest"
      using False d(2) by simp
    have 3: "length (c # d) \<le> length d'" if "c # cs = d' @ sep @ r'" for d' r'
    proof (cases d')
      case Nil
      then have "startswith (c # cs) sep" using that by (simp add: startswith_iff)
      then show ?thesis using False by simp
    next
      case (Cons x d'')
      then have "cs = d'' @ sep @ r'" using that by simp
      then have "length d \<le> length d''" using d(3) by blast
      then show ?thesis using Cons by simp
    qed
    show ?thesis using 1 2 3 by blast
  qed
qed


lemma split_pieces_two_or_more:
  assumes "sep \<noteq> []" "contains s sep"
  shows "2 \<le> length (split_pieces sep cur s)"
proof -
  obtain d rest where "split_pieces sep cur s = (cur @ d) # split_pieces sep [] rest"
    using split_pieces_first[OF assms] by blast
  moreover have "split_pieces sep [] rest \<noteq> []" by (rule split_pieces_not_Nil)
  ultimately show ?thesis by (cases "split_pieces sep [] rest") auto
qed


lemma split_pieces_once:
  assumes ne: "sep \<noteq> []" and dec: "s = d @ sep @ f"
    and first: "\<forall>d' r'. s = d' @ sep @ r' \<longrightarrow> length d \<le> length d'"
    and rest: "\<not> contains f sep"
  shows "split_pieces sep [] s = [d, f]"
proof -
  have found: "contains s sep" using dec contains_iff by blast
  obtain d0 r0 where d0: "s = d0 @ sep @ r0"
    "split_pieces sep [] s = ([] @ d0) # split_pieces sep [] r0"
    "\<forall>d' r'. s = d' @ sep @ r' \<longrightarrow> length d0 \<le> length d'"
    using split_pieces_first[OF ne found, of "[]"] by blast
  have "length d0 \<le> length d" using d0(3) dec by blast
  moreover have "length d \<le> length d0" using first d0(1) by blast
  ultimately have "length d0 = length d" by simp
  moreover have "d0 @ sep @ r0 = d @ sep @ f" using d0(1) dec by simp
  ultimately have "d0 = d \<and> r0 = f" by simp
  then show ?thesis
    using d0(2) split_pieces_no_match[OF rest, of "[]"] by simp
qed

lemma split_pieces_twice:
  assumes ne: "sep \<noteq> []"
  shows "3 \<le> length (split_pieces sep [] (x @ sep @ y @ sep @ z))"
proof -
  let ?c = "x @ sep @ y @ sep @ z"
  have found: "contains ?c sep" using contains_iff by blast
  obtain d0 r0 where d0: "?c = d0 @ sep @ r0"
    "split_pieces sep [] ?c = ([] @ d0) # split_pieces sep [] r0"
    "\<forall>d' r'. ?c = d' @ sep @ r' \<longrightarrow> length d0 \<le> length d'"
    using split_pieces_first[OF ne found, of "[]"] by blast
  have le: "length d0 \<le> length x" using d0(3) by blast
  have "drop (length (d0 @ sep)) ((d0 @ sep) @ r0) = r0" by simp
  then have "r0 = drop (length d0 + length sep) ?c" using d0(1) by simp
  also have "\<dots> = drop (length d0 + length sep) (x @ sep @ y) @ sep @ z"
    using le by simp
  finally have "contains r0 sep" using contains_iff by blast
  from split_pieces_two_or_more[OF ne this, of "[]"]
  show ?thesis using d0(2) by simp
qed


section \<open>The split of the page content\<close>


lemma split_content_pieces:
  assumes "contains content ''Features''"
  shows "split_content content =
     (case split_pieces ''Features'' [] content of
        [d, f] \<Rightarrow> Inr (d, f) | _ \<Rightarrow> Inl ValueError)"
proof -
  have "py_split content ''Features'' = Inr (split_pieces ''Features'' [] content)"
    by (simp add: py_split_def)
  then show ?thesis using assms
    by (simp add: split_content_def split: list.splits)
qed


lemma split_content_once:
  assumes "content = d @ ''Features'' @ f"
    and "\<forall>d' r'. content = d' @ ''Features'' @ r' \<longrightarrow> length d \<le> length d'"
    and "\<not> contains f ''Features''"
  shows "split_content content = Inr (d, f)"
proof -
  have found: "contains content ''Features''" using assms(1) contains_iff by blast
  have "split_pieces ''Features'' [] content = [d, f]"
    using split_pieces_once[OF _ assms] by blast
  then show ?thesis unfolding split_content_pieces[OF found] by simp
qed

lemma split_content_twice:
  "split_content (x @ ''Features'' @ y @ ''Features'' @ z) = Inl ValueError"
proof -
  let ?c = "x @ ''Features'' @ y @ ''Features'' @ z"
  have found: "contains ?c ''Features''" using contains_iff by blast
  have "3 \<le> length (split_pieces ''Features'' [] ?c)"
    by (rule split_pieces_twice) simp
  then have "(case split_pieces ''Features'' [] ?c of
       [d, f] \<Rightarrow> Inr (d, f) | _ \<Rightarrow> Inl ValueError) = Inl ValueError"
    by (auto split: list.splits)
  then show ?thesis unfolding split_content_pieces[OF found] .
qed



section \<open>The loops of \<open>fetch\<close>\<close>

lemma entries_loop_Inr:
  "snd (entries_loop w es fx deals) = Inr out \<Longrightarrow>
   \<exists>ds. out = deals @ ds \<and> map (ScrapedDeal_init w) es = map Inr ds"
proof (induction es arbitrary: fx deals)
  case Nil
  then show ?case by simp
next
  case (Cons e es)
  show ?case
  proof (cases "ScrapedDeal_init w e")
    case (Inl err)
    then show ?thesis using Cons.prems by simp
  next
    case (Inr d)
    then have "snd (entries_loop w es (fx\<lparr>pauses := pauses fx + 1\<rparr>) (deals @ [d])) = Inr out"
      using Cons.prems by simp
    from Cons.IH[OF this] obtain ds where
      "out = (deals @ [d]) @ ds" "map (ScrapedDeal_init w) es = map Inr ds" by blast
    then have "out = deals @ (d # ds) \<and> map (ScrapedDeal_init w) (e # es) = map Inr (d # ds)"
      using Inr by simp
    then show ?thesis by blast
  qed
qed

lemma entries_loop_result:
  "snd (entries_loop w es fx deals) = snd (entries_loop w es fx' deals)"
  by (induction es arbitrary: fx fx' deals) (auto split: sum.splits)

lemma entries_loop_bar:
  "bar_updates (fst (entries_loop w es fx deals)) = bar_updates fx"
  by (induction es arbitrary: fx deals) (auto split: sum.splits)

lemma entries_loop_Inl:
  "snd (entries_loop w es fx deals) = Inl err \<Longrightarrow>
   \<exists>e \<in> set es. ScrapedDeal_init w e = Inl err"
  by (induction es arbitrary: fx deals) (auto split: sum.splits)

lemma all_built:
  assumes "map (ScrapedDeal_init w) es = map Inr ds"
  shows "concat (map (\<lambda>e. case ScrapedDeal_init w e of Inr d \<Rightarrow> [d] | Inl err \<Rightarrow> []) es) = ds"
  using assms by (induction es arbitrary: ds) auto

lemma feeds_loop_Inr:
  "snd (feeds_loop w bar fs fx deals) = Inr out \<Longrightarrow>
   out = deals @ concat (map (built w) fs) \<and>
   (\<forall>u \<in> set fs. \<forall>e \<in> set (take 10 (entries (feedparser_parse w u))).
      \<exists>d. ScrapedDeal_init w e = Inr d)"
proof (induction fs arbitrary: fx deals)
  case Nil
  then show ?case by simp
next
  case (Cons u fs)
  let ?fx1 = "if bar then fx\<lparr>bar_updates := bar_updates fx + 1\<rparr> else fx"
  let ?es = "take 10 (entries (feedparser_parse w u))"
  obtain fx2 r where run: "entries_loop w ?es ?fx1 deals = (fx2, r)" by (cases "entries_loop w ?es ?fx1 deals")
  show ?case
  proof (cases r)
    case (Inl err)
    then show ?thesis using Cons.prems run by (simp add: Let_def)
  next
    case (Inr mid)
    then have rest: "snd (feeds_loop w bar fs fx2 mid) = Inr out"
      using Cons.prems run by (simp add: Let_def)
    have "snd (entries_loop w ?es ?fx1 deals) = Inr mid" using run Inr by simp
    from entries_loop_Inr[OF this] obtain ds where
      ds: "mid = deals @ ds" "map (ScrapedDeal_init w) ?es = map Inr ds" by blast
    have b: "built w u = ds" unfolding built_def by (rule all_built[OF ds(2)])
    have ok: "\<forall>e \<in> set ?es. \<exists>d. ScrapedDeal_init w e = Inr d"
    proof
      fix e assume "e \<in> set ?es"
      then have "ScrapedDeal_init w e \<in> set (map (ScrapedDeal_init w) ?es)" by simp
      then have "ScrapedDeal_init w e \<in> set (map Inr ds)" using ds(2) by simp
      then show "\<exists>d. ScrapedDeal_init w e = Inr d" by auto
    qed
    from Cons.IH[OF rest] show ?thesis using ds(1) b ok by simp
  qed
qed

lemma feeds_loop_result:
  "snd (feeds_loop w bar fs fx deals) = snd (feeds_loop w bar' fs fx' deals)"
proof (induction fs arbitrary: fx fx' deals)
  case Nil
  then show ?case by simp
next
  case (Cons u fs)
  let ?fx1 = "if bar then fx\<lparr>bar_updates := bar_updates fx + 1\<rparr> else fx"
  let ?fx1' = "if bar' then fx'\<lparr>bar_updates := bar_updates fx' + 1\<rparr> else fx'"
  let ?es = "take 10 (entries (feedparser_parse w u))"
  obtain fx2 r where run: "entries_loop w ?es ?fx1 deals = (fx2, r)"
    by (cases "entries_loop w ?es ?fx1 deals")
  obtain fx2' r' where run': "entries_loop w ?es ?fx1' deals = (fx2', r')"
    by (cases "entries_loop w ?es ?fx1' deals")
  have "r' = r" using entries_loop_result[of w ?es ?fx1 deals ?fx1'] run run' by simp
  then have run'': "entries_loop w ?es ?fx1' deals = (fx2', r)" using run' by simp
  show ?case
  proof (cases r)
    case (Inl err)
    then show ?thesis using run run'' by (simp add: Let_def)
  next
    case (Inr mid)
    then show ?thesis using run run'' Cons.IH[of fx2 mid fx2'] by (simp add: Let_def)
  qed
qed

lemma feeds_loop_Inl:
  "snd (feeds_loop w bar fs fx deals) = Inl err \<Longrightarrow>
   \<exists>u \<in> set fs. \<exists>e \<in> set (take 10 (entries (feedparser_parse w u))).
     ScrapedDeal_init w e = Inl err"
proof (induction fs arbitrary: fx deals)
  case Nil
  then show ?case by simp
next
  case (Cons u fs)
  let ?fx1 = "if bar then fx\<lparr>bar_updates := bar_updates fx + 1\<rparr> else fx"
  let ?es = "take 10 (entries (feedparser_parse w u))"
  obtain fx2 r where run: "entries_loop w ?es ?fx1 deals = (fx2, r)"
    by (cases "entries_loop w ?es ?fx1 deals")
  show ?case
  proof (cases r)
    case (Inl err')
    then have "err' = err" using Cons.prems run by (simp add: Let_def)
    then have "snd (entries_loop w ?es ?fx1 deals) = Inl err" using run Inl by simp
    from entries_loop_Inl[OF this] show ?thesis by auto
  next
    case (Inr mid)
    then have "snd (feeds_loop w bar fs fx2 mid) = Inl err"
      using Cons.prems run by (simp add: Let_def)
    from Cons.IH[OF this] show ?thesis by auto
  qed
qed

lemma entries_loop_pauses:
  "pauses fx = pauses fx' \<Longrightarrow>
   pauses (fst (entries_loop w es fx deals)) = pauses (fst (entries_loop w es fx' deals))"
  by (induction es arbitrary: fx fx' deals) (auto split: sum.splits)

lemma feeds_loop_pauses:
  "pauses fx = pauses fx' \<Longrightarrow>
   pauses (fst (feeds_loop w bar fs fx deals)) = pauses (fst (feeds_loop w bar' fs fx' deals))"
proof (induction fs arbitrary: fx fx' deals)
  case Nil
  then show ?case by simp
next
  case (Cons u fs)
  let ?fx1 = "if bar then fx\<lparr>bar_updates := bar_updates fx + 1\<rparr> else fx"
  let ?fx1' = "if bar' then fx'\<lparr>bar_updates := bar_updates fx' + 1\<rparr> else fx'"
  let ?es = "take 10 (entries (feedparser_parse w u))"
  obtain fx2 r where run: "entries_loop w ?es ?fx1 deals = (fx2, r)"
    by (cases "entries_loop w ?es ?fx1 deals")
  obtain fx2' r' where run': "entries_loop w ?es ?fx1' deals = (fx2', r')"
    by (cases "entries_loop w ?es ?fx1' deals")
  have "r' = r" using entries_loop_result[of w ?es ?fx1 deals ?fx1'] run run' by simp
  then have run'': "entries_loop w ?es ?fx1' deals = (fx2', r)" using run' by simp
  have "pauses ?fx1 = pauses ?fx1'" using Cons.prems by simp
  from entries_loop_pauses[OF this, of w ?es deals]
  have p: "pauses fx2 = pauses fx2'" using run run'' by simp
  show ?case
  proof (cases r)
    case (Inl err)
    then show ?thesis using run run'' p by (simp add: Let_def)
  next
    case (Inr mid)
    then show ?thesis using run run'' Cons.IH[OF p, of mid] by (simp add: Let_def)
  qed
qed

lemma feeds_loop_no_bar:
  "bar_updates (fst (feeds_loop w False fs fx deals)) = bar_updates fx"
proof (induction fs arbitrary: fx deals)
  case Nil
  then show ?case by simp
next
  case (Cons u fs)
  let ?es = "take 10 (entries (feedparser_parse w u))"
  obtain fx2 r where run: "entries_loop w ?es fx deals = (fx2, r)"
    by (cases "entries_loop w ?es fx deals")
  have b: "bar_updates fx2 = bar_updates fx"
    using entries_loop_bar[of w ?es fx deals] run by simp
  show ?case
  proof (cases r)
    case (Inl err)
    then show ?thesis using run b by simp
  next
    case (Inr mid)
    then show ?thesis using run b Cons.IH[of fx2 mid] by simp
  qed
qed

lemma py_replace_char:
  "py_replace [a] [b] s = map (\<lambda>c. if c = a then b else c) s"
  by (induction s) auto

lemma py_replace_char_absent: "a \<notin> set s \<Longrightarrow> py_replace [a] [b] s = s"
  by (induction s) auto

lemma py_replace_char_gone: "a \<noteq> b \<Longrightarrow> a \<notin> set (py_replace [a] [b] s)"
  by (auto simp: py_replace_char)

lemma extract_text_no_newline:
  assumes "extract_text w s = Inr out"
  shows "newline \<notin> set out"
proof -
  have "newline \<notin> set (py_replace [newline] '' '' r)" for r
    by (rule py_replace_char_gone) (simp add: newline_def)
  then show ?thesis
    using assms unfolding extract_text_def Let_def
    by (auto split: sum.splits option.splits)
qed

lemma extract_text_fallback:
  "soup_find w s ''div'' ''snippet summary'' = Inr None \<Longrightarrow>
   extract_text w s = Inr (py_replace [newline] '' '' s)"
  by (simp add: extract_text_def)

lemma extract_text_again:
  assumes "extract_text w s = Inr out"
    and "soup_find w out ''div'' ''snippet summary'' = Inr None"
  shows "extract_text w out = Inr out"
  using extract_text_fallback[OF assms(2)]
    py_replace_char_absent[OF extract_text_no_newline[OF assms(1)]]
  by simp

lemma rev_dropWhile_split:
  "xs = rev (dropWhile P (rev xs)) @ rev (takeWhile P (rev xs))"
proof -
  have "rev (rev xs) = rev (takeWhile P (rev xs) @ dropWhile P (rev xs))"
    by (simp only: takeWhile_dropWhile_id)
  then show ?thesis by (simp only: rev_append rev_rev_ident)
qed

lemma py_strip_parts:
  "\<exists>pre post. s = pre @ py_strip s @ post \<and> list_all isspace pre \<and> list_all isspace post"
proof -
  let ?pre = "takeWhile isspace s"
  let ?mid = "dropWhile isspace s"
  let ?post = "rev (takeWhile isspace (rev ?mid))"
  have mid: "?mid = py_strip s @ ?post"
    unfolding py_strip_def by (rule rev_dropWhile_split)
  have "s = ?pre @ ?mid" by simp
  then have "s = ?pre @ py_strip s @ ?post" using mid by simp
  moreover have "list_all isspace ?pre"
    unfolding list_all_iff using set_takeWhileD by fastforce
  moreover have "list_all isspace ?post"
    unfolding list_all_iff using set_takeWhileD by fastforce
  ultimately show ?thesis by blast
qed

lemma py_strip_ends:
  assumes "py_strip s \<noteq> []"
  shows "\<not> isspace (hd (py_strip s)) \<and> \<not> isspace (last (py_strip s))"
proof -
  let ?mid = "dropWhile isspace s"
  let ?r = "dropWhile isspace (rev ?mid)"
  have r: "?r \<noteq> []" using assms by (simp add: py_strip_def)
  then have "\<not> isspace (hd ?r)" by (rule hd_dropWhile)
  moreover have "last (py_strip s) = hd ?r" using r by (simp add: py_strip_def last_rev)
  ultimately have 1: "\<not> isspace (last (py_strip s))" by simp
  have mid: "?mid \<noteq> []"
  proof
    assume e: "?mid = []"
    have "?r = dropWhile isspace (rev [])" by (simp only: e)
    then have "?r = []" by (simp only: rev.simps dropWhile.simps)
    with r show False by blast
  qed
  then have h: "\<not> isspace (hd ?mid)" by (rule hd_dropWhile)
  have "?mid = py_strip s @ rev (takeWhile isspace (rev ?mid))"
    unfolding py_strip_def by (rule rev_dropWhile_split)
  then have "hd ?mid = hd (py_strip s @ rev (takeWhile isspace (rev ?mid)))" by simp
  then have "hd ?mid = hd (py_strip s)" using assms by simp
  then show ?thesis using h 1 by simp
qed

lemma init_fields:
  assumes "ScrapedDeal_init w e = Inr d"
  shows "\<exists>content. cleaned_content w (url d) = Inr content
      \<and> split_content content = Inr (details d, features d)"
  using assms unfolding ScrapedDeal_init_def Let_def
  by (auto split: option.splits list.splits sum.splits prod.splits)

lemmas sample_defs =
  sample_world_def sample_entry_def page_markup_def ScrapedDeal_init_def cleaned_content_def
  split_content_def py_split_def extract_text_def newline_def

lemma length_built: "length (built w u) \<le> 10"
proof -
  have "length (concat (map (\<lambda>e. case ScrapedDeal_init w e of Inr d \<Rightarrow> [d] | Inl err \<Rightarrow> []) es))
      \<le> length es" for es
    by (induction es) (auto split: sum.splits)
  from this[of "take 10 (entries (feedparser_parse w u))"] show ?thesis
    unfolding built_def by simp
qed

lemma built_no_entries: "entries (feedparser_parse w u) = [] \<Longrightarrow> built w u = []"
  by (simp add: built_def)

lemma entries_loop_all_built:
  "\<forall>e \<in> set es. \<exists>d. ScrapedDeal_init w e = Inr d \<Longrightarrow>
   snd (entries_loop w es fx deals)
     = Inr (deals @ concat (map (\<lambda>e. case ScrapedDeal_init w e of Inr d \<Rightarrow> [d] | Inl err \<Rightarrow> []) es))"
  by (induction es arbitrary: fx deals) auto

lemma feeds_loop_all_built:
  "\<forall>u \<in> set fs. \<forall>e \<in> set (take 10 (entries (feedparser_parse w u))).
      \<exists>d. ScrapedDeal_init w e = Inr d \<Longrightarrow>
   snd (feeds_loop w bar fs fx deals) = Inr (deals @ concat (map (built w) fs))"
proof (induction fs arbitrary: fx deals)
  case Nil
  then show ?case by simp
next
  case (Cons u fs)
  let ?fx1 = "if bar then fx\<lparr>bar_updates := bar_updates fx + 1\<rparr> else fx"
  let ?es = "take 10 (entries (feedparser_parse w u))"
  obtain fx2 r where run: "entries_loop w ?es ?fx1 deals = (fx2, r)"
    by (cases "entries_loop w ?es ?fx1 deals")
  have "\<forall>e \<in> set ?es. \<exists>d. ScrapedDeal_init w e = Inr d" using Cons.prems by simp
  from entries_loop_all_built[OF this, of ?fx1 deals]
  have r: "r = Inr (deals @ built w u)" using run by (simp add: built_def)
  have rest: "\<forall>u \<in> set fs. \<forall>e \<in> set (take 10 (entries (feedparser_parse w u))).
      \<exists>d. ScrapedDeal_init w e = Inr d"
    using Cons.prems by simp
  show ?case using run r Cons.IH[OF rest, of fx2 "deals @ built w u"]
    by (simp add: Let_def)
qed

lemma feeds_loop_skip:
  "entries (feedparser_parse w u) = [] \<Longrightarrow>
   snd (feeds_loop w bar (fs1 @ u # fs2) fx deals) = snd (feeds_loop w bar (fs1 @ fs2) fx deals)"
proof (induction fs1 arbitrary: fx deals)
  case Nil
  then show ?case using feeds_loop_result[of w bar fs2 _ deals bar fx]
    by (simp add: Let_def)
next
  case (Cons v fs1)
  let ?fx1 = "if bar then fx\<lparr>bar_updates := bar_updates fx + 1\<rparr> else fx"
  let ?es = "take 10 (entries (feedparser_parse w v))"
  obtain fx2 r where run: "entries_loop w ?es ?fx1 deals = (fx2, r)"
    by (cases "entries_loop w ?es ?fx1 deals")
  show ?case
  proof (cases r)
    case (Inl err)
    then show ?thesis using run by (simp add: Let_def)
  next
    case (Inr mid)
    then show ?thesis using run Cons.IH[OF Cons.prems, of fx2 mid] by (simp add: Let_def)
  qed
qed

lemma fetch_from_feeds_loop:
  "fetch_from w fs show_progress
     = feeds_loop w show_progress fs \<lparr>bar_updates = 0, pauses = 0\<rparr> []"
  by (simp add: fetch_from_def)

lemma init_page_fetch_fails:
  assumes "entry_title e = Some t" "entry_summary e = Some raw"
    and "extract_text w raw = Inr s"
    and "entry_links e = Some (l # ls)" "href l = Some u"
    and "requests_get w u = Inl err"
  shows "ScrapedDeal_init w e = Inl err"
  using assms by (simp add: ScrapedDeal_init_def cleaned_content_def)

lemma init_no_content_section:
  assumes "entry_title e = Some t" "entry_summary e = Some raw"
    and "extract_text w raw = Inr s"
    and "entry_links e = Some (l # ls)" "href l = Some u"
    and "requests_get w u = Inr stuff"
    and "soup_find w stuff ''div'' ''content-section'' = Inr None"
  shows "ScrapedDeal_init w e = Inl AttributeError"
  using assms by (simp add: ScrapedDeal_init_def cleaned_content_def)

lemma init_two_markers:
  assumes "entry_title e = Some t" "entry_summary e = Some raw"
    and "extract_text w raw = Inr s"
    and "entry_links e = Some (l # ls)" "href l = Some u"
    and "cleaned_content w u = Inr (x @ ''Features'' @ y @ ''Features'' @ z)"
  shows "ScrapedDeal_init w e = Inl ValueError"
  using assms split_content_twice[of x y z] by (simp add: ScrapedDeal_init_def)

lemma init_laptop:
  "ScrapedDeal_init (sample_world sample_pages sample_feeds) (sample_entry ''Laptop'' ''http://d/1'')
     = Inr laptop"
  by (simp add: sample_defs sample_pages_def laptop_def)

lemma init_tv:
  "ScrapedDeal_init (sample_world sample_pages sample_feeds) (sample_entry ''TV'' ''http://d/2'')
     = Inr tv"
  by (simp add: sample_defs sample_pages_def tv_def)

lemma init_speakers:
  "ScrapedDeal_init (sample_world sample_pages sample_feeds) (sample_entry ''Speakers'' ''http://d/3'')
     = Inl ValueError"
  by (simp add: sample_defs sample_pages_def)

lemma parse_sample:
  "feedparser_parse (sample_world sample_pages sample_feeds) ''feed/down'' = \<lparr>entries = [], bozo = True\<rparr>"
  "feedparser_parse (sample_world sample_pages sample_feeds) ''feed/good''
     = \<lparr>entries = [sample_entry ''Laptop'' ''http://d/1'', sample_entry ''TV'' ''http://d/2''],
         bozo = False\<rparr>"
  "feedparser_parse (sample_world sample_pages sample_feeds) ''feed/long''
     = \<lparr>entries = replicate 11 (sample_entry ''Laptop'' ''http://d/1''), bozo = False\<rparr>"
  "feedparser_parse (sample_world sample_pages sample_feeds) ''feed/bad''
     = \<lparr>entries = [sample_entry ''Speakers'' ''http://d/3'', sample_entry ''TV'' ''http://d/2''],
         bozo = False\<rparr>"
  by (simp_all add: sample_world_def sample_feeds_def)

lemma take_10_of_11: "take 10 (replicate 11 x) = [x, x, x, x, x, x, x, x, x, x]"
  by (simp add: numeral_eq_Suc)

section \<open>The claims\<close>

subsection \<open>C1: the split at the first marker\<close>

text \<open>
  C1 says that a page text containing \<open>Features\<close> is split at the first occurrence
  only, also when the marker occurs several times. \<open>split_content_once\<close> is that
  statement for a text in which the part after the first occurrence has no further
  marker. With a second marker \<open>split\<close> returns three pieces or more and the
  unpacking into two names raises \<open>ValueError\<close> (\<open>split_content_twice\<close>): for the
  text below C1 promises the details \<open>intro\<close> and the features
  \<open> one Features two\<close>, and the code builds no record.
\<close>

theorem split_content_two_markers:
  "split_content ''introFeatures one Features two'' = Inl ValueError"
  by (simp add: split_content_def py_split_def)

subsection \<open>C2: \<open>features\<close> is empty\<close>




subsection \<open>C3: the records that \<open>fetch\<close> returns\<close>

text \<open>
  C3, as amended: for every list of feeds in which \<open>__init__\<close> returns for every
  entry among the first ten of each feed, \<open>fetch\<close> returns the records of the feeds
  in feed order and, within a feed, in entry order, and their number is the sum over
  the feeds of the number of entries built; a list that \<open>fetch\<close> returns is always
  that list; a feed gives at most 10 records; and a feed that feedparser reports as
  failed, with no entries, gives no record and does not change how the run ends: the
  run with the feed in the list ends as the run without it.
\<close>

theorem fetch_from_records:
  "((\<forall>feed_url \<in> set fs. \<forall>e \<in> set (take 10 (entries (feedparser_parse w feed_url))).
        \<exists>d. ScrapedDeal_init w e = Inr d)
      \<longrightarrow> snd (fetch_from w fs show_progress) = Inr (concat (map (built w) fs))
        \<and> length (concat (map (built w) fs))
            = sum_list (map (\<lambda>feed_url. length (built w feed_url)) fs))
   \<and> (\<forall>deals. snd (fetch_from w fs show_progress) = Inr deals
        \<longrightarrow> deals = concat (map (built w) fs))
   \<and> (\<forall>feed_url \<in> set fs. length (built w feed_url) \<le> 10)
   \<and> (bozo (feedparser_parse w u) \<and> entries (feedparser_parse w u) = []
        \<longrightarrow> built w u = []
          \<and> snd (fetch_from w (fs1 @ u # fs2) show_progress)
              = snd (fetch_from w (fs1 @ fs2) show_progress))"
proof -
  have total: "length (concat (map (built w) fs))
      = sum_list (map (\<lambda>feed_url. length (built w feed_url)) fs)"
    by (simp add: length_concat comp_def)
  have 1: "snd (fetch_from w fs show_progress) = Inr (concat (map (built w) fs))"
    if "\<forall>feed_url \<in> set fs. \<forall>e \<in> set (take 10 (entries (feedparser_parse w feed_url))).
        \<exists>d. ScrapedDeal_init w e = Inr d"
    using feeds_loop_all_built[OF that, of show_progress "\<lparr>bar_updates = 0, pauses = 0\<rparr>" "[]"]
    by (simp add: fetch_from_feeds_loop)
  have 2: "deals = concat (map (built w) fs)"
    if "snd (fetch_from w fs show_progress) = Inr deals" for deals
  proof -
    have "snd (feeds_loop w show_progress fs \<lparr>bar_updates = 0, pauses = 0\<rparr> []) = Inr deals"
      using that by (simp only: fetch_from_feeds_loop)
    from feeds_loop_Inr[OF this] show ?thesis by simp
  qed
  have 3: "\<forall>feed_url \<in> set fs. length (built w feed_url) \<le> 10"
    using length_built by blast
  have 4: "built w u = []
      \<and> snd (fetch_from w (fs1 @ u # fs2) show_progress)
          = snd (fetch_from w (fs1 @ fs2) show_progress)"
    if "entries (feedparser_parse w u) = []"
    using built_no_entries[OF that] feeds_loop_skip[OF that]
    by (simp add: fetch_from_feeds_loop)
  show ?thesis using total 1 2 3 4 by blast
qed

text \<open>
  C3 as stated fails for a list with an entry for which \<open>__init__\<close> raises: the two
  records built from the first feed are not returned, the run ends with the
  exception.
\<close>

theorem fetch_from_drops_built_records:
  "snd (fetch_from (sample_world sample_pages sample_feeds) [''feed/good'', ''feed/bad''] False)
     = Inl ValueError
   \<and> built (sample_world sample_pages sample_feeds) ''feed/good'' = [laptop, tv]"
  by (simp add: fetch_from_feeds_loop built_def parse_sample init_laptop init_tv init_speakers)

theorem fetch_from_records_witness:
  "snd (fetch_from (sample_world sample_pages sample_feeds)
          [''feed/good'', ''feed/down'', ''feed/long''] False)
     = Inr ([laptop, tv] @ replicate 10 laptop)
   \<and> length ([laptop, tv] @ replicate 10 laptop) = 2 + 0 + 10
   \<and> bozo (feedparser_parse (sample_world sample_pages sample_feeds) ''feed/down'')
   \<and> entries (feedparser_parse (sample_world sample_pages sample_feeds) ''feed/down'') = []
   \<and> snd (fetch_from (sample_world sample_pages sample_feeds)
          [''feed/good'', ''feed/down'', ''feed/long''] False)
     = snd (fetch_from (sample_world sample_pages sample_feeds)
          [''feed/good'', ''feed/long''] False)"
proof -
  let ?w = "sample_world sample_pages sample_feeds"
  let ?fs = "[''feed/good'', ''feed/down'', ''feed/long'']"
  have all: "\<forall>feed_url \<in> set ?fs. \<forall>e \<in> set (take 10 (entries (feedparser_parse ?w feed_url))).
      \<exists>d. ScrapedDeal_init ?w e = Inr d"
    by (simp add: parse_sample take_10_of_11 init_laptop init_tv)
  have down: "bozo (feedparser_parse ?w ''feed/down'') \<and> entries (feedparser_parse ?w ''feed/down'') = []"
    by (simp add: parse_sample)
  have b: "concat (map (built ?w) ?fs) = [laptop, tv] @ replicate 10 laptop"
    by (simp add: built_def parse_sample take_10_of_11 init_laptop init_tv numeral_eq_Suc)
  from fetch_from_records[of ?fs ?w False "''feed/down''" "[''feed/good'']" "[''feed/long'']"]
    all down
  have "snd (fetch_from ?w ?fs False) = Inr (concat (map (built ?w) ?fs))"
    and "snd (fetch_from ?w ([''feed/good''] @ ''feed/down'' # [''feed/long'']) False)
      = snd (fetch_from ?w ([''feed/good''] @ [''feed/long'']) False)"
    by blast+
  then show ?thesis using b down by simp
qed

subsection \<open>C4: surrounding whitespace\<close>

text \<open>
  C4, as amended: for every ScrapedDeal that \<open>__init__\<close> constructs, the stored
  \<open>details\<close> and \<open>features\<close> are the two segments as the split returns them, with
  their surrounding whitespace; \<open>describe\<close> is where they are stripped: it renders
  \<open>details.strip()\<close> and \<open>features.strip()\<close>, each the stored text without the
  whitespace at its two ends.
\<close>

theorem describe_strips_stored_segments:
  assumes "ScrapedDeal_init w e = Inr d"
  shows "(\<exists>content. cleaned_content w (url d) = Inr content
        \<and> split_content content = Inr (details d, features d))
     \<and> describe d =
         ''Title: '' @ title d @ [newline] @
         ''Details: '' @ py_strip (details d) @ [newline] @
         ''Features: '' @ py_strip (features d) @ [newline] @
         ''URL: '' @ url d
     \<and> (\<exists>pre post. details d = pre @ py_strip (details d) @ post
          \<and> list_all isspace pre \<and> list_all isspace post)
     \<and> (\<exists>pre post. features d = pre @ py_strip (features d) @ post
          \<and> list_all isspace pre \<and> list_all isspace post)
     \<and> (py_strip (details d) = []
          \<or> \<not> isspace (hd (py_strip (details d))) \<and> \<not> isspace (last (py_strip (details d))))
     \<and> (py_strip (features d) = []
          \<or> \<not> isspace (hd (py_strip (features d))) \<and> \<not> isspace (last (py_strip (features d))))"
  using init_fields[OF assms] py_strip_parts[of "details d"] py_strip_parts[of "features d"]
    py_strip_ends[of "details d"] py_strip_ends[of "features d"]
  by (simp add: describe_def) blast

text \<open>
  C4 as stated fails on the page of its own scenario: the stored \<open>features\<close> keeps
  the space that follows the marker.
\<close>

theorem stored_features_not_stripped:
  "ScrapedDeal_init
      (sample_world [(''http://d/1'', ''...intro text...Features bullet one bullet two'')] [])
      (sample_entry ''TV'' ''http://d/1'')
     = Inr \<lparr>title = ''TV'', summary = ''A deal'', url = ''http://d/1'',
            details = ''...intro text...'', features = '' bullet one bullet two''\<rparr>
   \<and> py_strip '' bullet one bullet two'' \<noteq> '' bullet one bullet two''"
  by (simp add: sample_defs py_strip_def isspace_def)

theorem describe_strips_witness:
  "ScrapedDeal_init
      (sample_world [(''http://d/1'', ''...intro text...Features bullet one bullet two'')] [])
      (sample_entry ''TV'' ''http://d/1'')
     = Inr \<lparr>title = ''TV'', summary = ''A deal'', url = ''http://d/1'',
            details = ''...intro text...'', features = '' bullet one bullet two''\<rparr>
   \<and> describe \<lparr>title = ''TV'', summary = ''A deal'', url = ''http://d/1'',
            details = ''...intro text...'', features = '' bullet one bullet two''\<rparr>
     = ''Title: TV'' @ [newline] @ ''Details: ...intro text...'' @ [newline] @
       ''Features: bullet one bullet two'' @ [newline] @ ''URL: http://d/1''"
proof -
  let ?w = "sample_world [(''http://d/1'', ''...intro text...Features bullet one bullet two'')] []"
  let ?d = "\<lparr>title = ''TV'', summary = ''A deal'', url = ''http://d/1'',
            details = ''...intro text...'', features = '' bullet one bullet two''\<rparr>"
  have h: "ScrapedDeal_init ?w (sample_entry ''TV'' ''http://d/1'') = Inr ?d"
    by (simp add: sample_defs)
  have "describe ?d =
         ''Title: '' @ title ?d @ [newline] @
         ''Details: '' @ py_strip (details ?d) @ [newline] @
         ''Features: '' @ py_strip (features ?d) @ [newline] @
         ''URL: '' @ url ?d"
    using describe_strips_stored_segments[OF h] by blast
  then show ?thesis using h by (simp add: py_strip_def isspace_def)
qed

subsection \<open>C5: no \<open>snippet summary\<close> element\<close>

text \<open>
  C5, as amended: when the parser accepts the input and no \<open>snippet summary\<close>
  element is found in it, \<open>extract\<close> raises nothing and returns the input with every
  newline replaced by a space and nothing else changed; when the parser rejects the
  input, \<open>extract\<close> raises the parser's exception.
\<close>

theorem extract_text_without_container:
  "(soup_find w html_snippet ''div'' ''snippet summary'' = Inr None
      \<longrightarrow> extract_text w html_snippet
          = Inr (map (\<lambda>c. if c = newline then CHR '' '' else c) html_snippet))
   \<and> (soup_find w html_snippet ''div'' ''snippet summary'' = Inl err
      \<longrightarrow> extract_text w html_snippet = Inl err)"
  by (simp add: extract_text_def py_replace_char)

text \<open>
  C5 as stated fails on \<open><![<\<close>: the text has no \<open>snippet summary\<close> element, and
  the parse on line 22 raises before the search.
\<close>

theorem extract_text_parser_rejects:
  "soup_find rejecting_world ''<![<'' ''div'' ''snippet summary'' = Inl ParserRejectedMarkup
   \<and> extract_text rejecting_world ''<![<'' = Inl ParserRejectedMarkup"
  by (simp add: extract_text_def rejecting_world_def)

theorem extract_text_without_container_witness:
  "soup_find (sample_world [] []) (''one'' @ [newline] @ ''<b>two</b>'') ''div'' ''snippet summary''
     = Inr None
   \<and> extract_text (sample_world [] []) (''one'' @ [newline] @ ''<b>two</b>'')
     = Inr ''one <b>two</b>''
   \<and> soup_find rejecting_world ''<![<'' ''div'' ''snippet summary'' = Inl ParserRejectedMarkup
   \<and> extract_text rejecting_world ''<![<'' = Inl ParserRejectedMarkup"
proof -
  let ?s = "''one'' @ [newline] @ ''<b>two</b>''"
  have h1: "soup_find (sample_world [] []) ?s ''div'' ''snippet summary'' = Inr None"
    by (simp add: sample_world_def)
  have h2: "soup_find rejecting_world ''<![<'' ''div'' ''snippet summary''
      = Inl ParserRejectedMarkup"
    by (simp add: rejecting_world_def)
  have "extract_text (sample_world [] []) ?s
      = Inr (map (\<lambda>c. if c = newline then CHR '' '' else c) ?s)"
    using extract_text_without_container[of "sample_world [] []" ?s] h1 by blast
  moreover have "extract_text rejecting_world ''<![<'' = Inl ParserRejectedMarkup"
    using extract_text_without_container[of rejecting_world "''<![<''" ParserRejectedMarkup] h2
    by blast
  ultimately show ?thesis using h1 h2 by (simp add: newline_def)
qed

subsection \<open>C6: \<open>extract\<close> applied twice\<close>

text \<open>
  C6 says that \<open>extract\<close> applied to its own output returns that output again. The
  single pass of the regular expression on line 28, which is to remove any
  remaining HTML tags, deletes \<open><b>\<close> from \<open><<b>div class="snippet summary">x\<close>
  and leaves the opening tag of a \<open>snippet summary\<close> element: the output of the
  first call is markup, and the second call extracts the text \<open>x\<close> from it.
  \<open>extract_text_again\<close> is the claim for an output in which no such element is found.
\<close>

theorem extract_text_not_idempotent:
  "extract_text entity_world entity_markup = Inr open_div
   \<and> extract_text entity_world open_div = Inr ''x''
   \<and> open_div \<noteq> ''x''"
  by (simp add: extract_text_def entity_world_def entity_markup_def entity_text_def
      entity_decoded_def open_div_def py_strip_def isspace_def newline_def)

subsection \<open>C8: the discount of an opportunity\<close>

text \<open>
  C8: an Opportunity built from a Deal and an estimate carries the discount
  \<open>estimate - deal.price\<close>, which is positive exactly when the price is below the
  estimate; a Deal priced 50 with the estimate 80 gives the discount 30.
\<close>

theorem opportunity_discount:
  "discount (make_opportunity d est)
     = estimate (make_opportunity d est) - price (deal (make_opportunity d est))
   \<and> (0 < discount (make_opportunity d est) \<longleftrightarrow> price d < est)
   \<and> deal (make_opportunity d est) = d
   \<and> discount (make_opportunity sample_deal 80) = 30"
  by (simp add: make_opportunity_def sample_deal_def)

subsection \<open>C9: the progress flag\<close>

text \<open>
  C9: for every list of feeds, \<open>fetch\<close> with \<open>show_progress\<close> true and with
  \<open>show_progress\<close> false gives the same result, the same list or the same
  exception; the pauses are the same too, and without the flag no progress bar is
  drawn.
\<close>

theorem fetch_from_progress_flag:
  "snd (fetch_from w fs True) = snd (fetch_from w fs False)
   \<and> pauses (fst (fetch_from w fs True)) = pauses (fst (fetch_from w fs False))
   \<and> bar_updates (fst (fetch_from w fs False)) = 0
   \<and> snd (fetch w True) = snd (fetch w False)"
proof -
  have 1: "snd (fetch_from w fs True) = snd (fetch_from w fs False)" for fs
    unfolding fetch_from_feeds_loop by (rule feeds_loop_result)
  have 2: "pauses (fst (fetch_from w fs True)) = pauses (fst (fetch_from w fs False))"
    unfolding fetch_from_feeds_loop by (rule feeds_loop_pauses) simp
  have 3: "bar_updates (fst (fetch_from w fs False)) = 0"
    unfolding fetch_from_feeds_loop by (simp add: feeds_loop_no_bar)
  show ?thesis using 1 2 3 by (simp add: fetch_def)
qed

subsection \<open>C10: an exception in \<open>__init__\<close>\<close>

text \<open>
  C10: if \<open>__init__\<close> raises for an entry among the first ten of a feed of the list,
  \<open>fetch\<close> returns no list: it ends with the exception of an entry for which
  \<open>__init__\<close> raised, and the records built before are not returned.
  \<open>init_page_fetch_fails\<close>, \<open>init_no_content_section\<close> and \<open>init_two_markers\<close>
  are the three examples of the claim.
\<close>

theorem fetch_from_propagates:
  assumes "feed_url \<in> set fs"
    and "e \<in> set (take 10 (entries (feedparser_parse w feed_url)))"
    and "ScrapedDeal_init w e = Inl err"
  shows "\<exists>err' u' e'. snd (fetch_from w fs show_progress) = Inl err'
     \<and> u' \<in> set fs \<and> e' \<in> set (take 10 (entries (feedparser_parse w u')))
     \<and> ScrapedDeal_init w e' = Inl err'"
proof (cases "snd (fetch_from w fs show_progress)")
  case (Inl err')
  then have "snd (feeds_loop w show_progress fs \<lparr>bar_updates = 0, pauses = 0\<rparr> []) = Inl err'"
    by (simp only: fetch_from_feeds_loop)
  from feeds_loop_Inl[OF this] Inl show ?thesis by blast
next
  case (Inr deals)
  then have "snd (feeds_loop w show_progress fs \<lparr>bar_updates = 0, pauses = 0\<rparr> []) = Inr deals"
    by (simp only: fetch_from_feeds_loop)
  from feeds_loop_Inr[OF this] assms(1,2) have "\<exists>d. ScrapedDeal_init w e = Inr d" by blast
  then show ?thesis using assms(3) by simp
qed

theorem fetch_from_propagates_witness:
  "ScrapedDeal_init (sample_world sample_pages sample_feeds) (sample_entry ''Speakers'' ''http://d/3'')
     = Inl ValueError
   \<and> snd (fetch_from (sample_world sample_pages sample_feeds) [''feed/good'', ''feed/bad''] True)
     = Inl ValueError"
proof -
  let ?w = "sample_world sample_pages sample_feeds"
  let ?e = "sample_entry ''Speakers'' ''http://d/3''"
  have 1: "''feed/bad'' \<in> set [''feed/good'', ''feed/bad'']" by simp
  have 2: "?e \<in> set (take 10 (entries (feedparser_parse ?w ''feed/bad'')))"
    by (simp add: parse_sample)
  from fetch_from_propagates[OF 1 2 init_speakers, of True]
  obtain err' where "snd (fetch_from ?w [''feed/good'', ''feed/bad''] True) = Inl err'"
    by blast
  moreover have "snd (fetch_from ?w [''feed/good'', ''feed/bad''] True) = Inl ValueError"
    by (simp add: fetch_from_feeds_loop parse_sample init_laptop init_tv init_speakers)
  ultimately show ?thesis using init_speakers by simp
qed

end
